theory Spec2Isabelle
  imports Main
begin

section \<open>The Tableau crawler of dbt-exposures-crawler\<close>

text \<open>
  This theory embeds \<^verbatim>\<open>src/exposurescrawler/crawlers/tableau.py\<close>: the exclusion
  predicate \<^verbatim>\<open>_should_ignore_workbook\<close>, the aggregator \<^verbatim>\<open>_parse_tables_from_sql\<close>
  and the body of \<^verbatim>\<open>tableau_crawler\<close> (aggregation of both SQL sources, the merge
  loop and the exposure-building loop). Isabelle identifiers cannot start with an
  underscore, so the two private functions lose their leading underscore.

  Python dictionaries keep insertion order and have unique keys; they are association
  lists here, with the dictionary operations the code uses written out. Exceptions are
  values of type \<open>error\<close> on the left of a sum. Logging is not modelled.
\<close>

subsection \<open>Data\<close>

text \<open>An exception, with its message.\<close>

datatype error = Error string

text \<open>
  Modelled from the spec: \<^verbatim>\<open>WorkbookReference\<close>, declared in
  \<^verbatim>\<open>exposurescrawler.tableau.models\<close>, outside \<^verbatim>\<open>tableau.py\<close>: a Dashboard Reference,
  identifier and display name, the key of every mapping of the pipeline. The code reads
  its \<^verbatim>\<open>id\<close> (to fetch the workbook) and its \<^verbatim>\<open>name\<close> (to log). Two references are the
  same dictionary key when they are equal.
\<close>

record workbook_reference =
  ref_id :: string
  ref_name :: string

text \<open>
  Modelled from the spec: the Dashboard Metadata that
  \<^verbatim>\<open>TableauRestClient.retrieve_workbook\<close> returns, a class outside \<^verbatim>\<open>tableau.py\<close>:
  display name, owning project name, owner identifier. The code reads \<^verbatim>\<open>name\<close>,
  \<^verbatim>\<open>project_name\<close> and \<^verbatim>\<open>owner_id\<close>. A project name may be absent (Python's
  \<^verbatim>\<open>None\<close>) or empty.
\<close>

record workbook =
  workbook_name :: string
  project_name :: "string option"
  owner_id :: string

text \<open>The association-list view of a dictionary.\<close>

type_synonym ('k, 'v) dict = "('k \<times> 'v) list"

definition dict_keys :: "('k, 'v) dict \<Rightarrow> 'k list" where
  "dict_keys d = map fst d"

definition dict_values :: "('k, 'v) dict \<Rightarrow> 'v list" where
  "dict_values d = map snd d"

text \<open>\<^verbatim>\<open>d[k] = v\<close>: an existing key keeps its position, a new key goes last.\<close>

fun dict_set :: "('k, 'v) dict \<Rightarrow> 'k \<Rightarrow> 'v \<Rightarrow> ('k, 'v) dict" where
  "dict_set [] k v = [(k, v)]"
| "dict_set ((k', v') # d) k v =
     (if k' = k then (k, v) # d else (k', v') # dict_set d k v)"

subsection \<open>The exclusion predicate\<close>

text \<open>
  \<^verbatim>\<open>
  def _should_ignore_workbook(workbook, projects_to_ignore):
      if not workbook.project_name:
          return True
      return workbook.project_name in projects_to_ignore
  \<close>
  \<^verbatim>\<open>not workbook.project_name\<close> holds for \<^verbatim>\<open>None\<close> and for the empty string.
\<close>

definition falsy_name :: "string option \<Rightarrow> bool" where
  "falsy_name p = (case p of None \<Rightarrow> True | Some s \<Rightarrow> s = [])"

definition should_ignore_workbook :: "workbook \<Rightarrow> string set \<Rightarrow> bool" where
  "should_ignore_workbook workbook projects_to_ignore =
     (if falsy_name (project_name workbook) then True
      else (case project_name workbook of
              None \<Rightarrow> False
            | Some p \<Rightarrow> p \<in> projects_to_ignore))"

subsection \<open>The aggregator\<close>

text \<open>
  \<^verbatim>\<open>search_model_in_query(custom_sql, models)\<close> is imported from
  \<^verbatim>\<open>exposurescrawler.utils.query_parsing\<close>; the aggregator only calls it, so it is a
  parameter \<open>search\<close> here. It returns a dictionary from unique ids to model records, or
  raises. The registry \<open>models\<close> is passed through untouched.

  The inner loop of \<^verbatim>\<open>_parse_tables_from_sql\<close>:
  \<^verbatim>\<open>
  all_found = []
  for custom_sql in custom_sqls:
      if models_found_query := search_model_in_query(custom_sql, models):
          all_found.extend(models_found_query.values())
  \<close>
  An empty dictionary is falsy. Nothing catches an exception of the call.
\<close>

fun collect_found ::
  "(string \<Rightarrow> 'r \<Rightarrow> error + (string, 'm) dict) \<Rightarrow> 'r \<Rightarrow> string list \<Rightarrow> 'm list \<Rightarrow> error + 'm list"
where
  "collect_found search models [] all_found = Inr all_found"
| "collect_found search models (custom_sql # custom_sqls) all_found =
     (case search custom_sql models of
        Inl e \<Rightarrow> Inl e
      | Inr models_found_query \<Rightarrow>
          if models_found_query \<noteq> []
          then collect_found search models custom_sqls (all_found @ dict_values models_found_query)
          else collect_found search models custom_sqls all_found)"

text \<open>
  The outer loop:
  \<^verbatim>\<open>
  for workbook_reference, custom_sqls in workbooks_sqls.items():
      all_found = ...
      if all_found:
          output[workbook_reference] = all_found
  \<close>
\<close>

fun parse_loop ::
  "(string \<Rightarrow> 'r \<Rightarrow> error + (string, 'm) dict) \<Rightarrow> 'r \<Rightarrow> ('k, string list) dict \<Rightarrow>
   ('k, 'm list) dict \<Rightarrow> error + ('k, 'm list) dict"
where
  "parse_loop search models [] output = Inr output"
| "parse_loop search models ((workbook_reference, custom_sqls) # rest) output =
     (case collect_found search models custom_sqls [] of
        Inl e \<Rightarrow> Inl e
      | Inr all_found \<Rightarrow>
          if all_found \<noteq> []
          then parse_loop search models rest (dict_set output workbook_reference all_found)
          else parse_loop search models rest output)"

definition parse_tables_from_sql ::
  "(string \<Rightarrow> 'r \<Rightarrow> error + (string, 'm) dict) \<Rightarrow> ('k, string list) dict \<Rightarrow> 'r \<Rightarrow>
   error + ('k, 'm list) dict"
where
  "parse_tables_from_sql search workbooks_sqls models = parse_loop search models workbooks_sqls []"

subsection \<open>The merge\<close>

text \<open>
  \<^verbatim>\<open>workbooks_models.setdefault(workbook_reference, []).extend(found)\<close>: a new key
  gets a fresh empty list, which is then extended; the list of an existing key is
  extended in place. The fresh list shares nothing with the inputs.
\<close>

fun setdefault_extend :: "('k, 'v list) dict \<Rightarrow> 'k \<Rightarrow> 'v list \<Rightarrow> ('k, 'v list) dict" where
  "setdefault_extend [] k found = [(k, [] @ found)]"
| "setdefault_extend ((k', v') # d) k found =
     (if k' = k then (k', v' @ found) # d else (k', v') # setdefault_extend d k found)"

text \<open>
  \<^verbatim>\<open>
  workbooks_models = {}
  for workbook_reference, found in itertools.chain(
      workbooks_custom_sql_models.items(), workbooks_native_sql_models.items()
  ):
      workbooks_models.setdefault(workbook_reference, []).extend(found)
  \<close>
\<close>

fun merge_loop :: "('k, 'v list) dict \<Rightarrow> ('k, 'v list) dict \<Rightarrow> ('k, 'v list) dict" where
  "merge_loop [] workbooks_models = workbooks_models"
| "merge_loop ((workbook_reference, found) # rest) workbooks_models =
     merge_loop rest (setdefault_extend workbooks_models workbook_reference found)"

definition merge_results :: "('k, 'v list) dict \<Rightarrow> ('k, 'v list) dict \<Rightarrow> ('k, 'v list) dict" where
  "merge_results workbooks_custom_sql_models workbooks_native_sql_models =
     merge_loop (workbooks_custom_sql_models @ workbooks_native_sql_models) []"

subsection \<open>The exposure-building loop\<close>

text \<open>
  The loop talks to the Tableau REST client and to the manifest. What it does to them is
  recorded as a trace of events, in the order of the calls; a call that raises is in the
  trace, since it was made.
\<close>

datatype ('x, 'm) event =
    RetrieveWorkbook string
  | RetrieveUser string
  | AddExposure 'x "'m list"
  | SignOut
  | Persist

text \<open>
  \<^verbatim>\<open>
  for workbook_reference, found in workbooks_models.items():
      workbook = tableau_client.retrieve_workbook(workbook_reference.id)
      owner = tableau_client.retrieve_user(workbook.owner_id)
      if _should_ignore_workbook(workbook, tableau_projects_to_ignore):
          continue
      exposure = DbtExposure.from_tableau_workbook(dbt_package_name, workbook, owner, found)
      manifest.add_exposure(exposure, found)
  \<close>
  The two client calls are parameters \<open>retrieve_workbook\<close> and \<open>retrieve_user\<close>, which
  return a value or raise; \<^verbatim>\<open>from_tableau_workbook\<close> is a parameter too. The result is
  the outcome (\<open>Inl\<close> the exception that left the loop) and the trace so far.
\<close>

fun build_exposures ::
  "(string \<Rightarrow> error + workbook) \<Rightarrow> (string \<Rightarrow> error + 'u) \<Rightarrow>
   (string \<Rightarrow> workbook \<Rightarrow> 'u \<Rightarrow> 'm list \<Rightarrow> 'x) \<Rightarrow> string \<Rightarrow> string set \<Rightarrow>
   (workbook_reference, 'm list) dict \<Rightarrow> ('x, 'm) event list \<Rightarrow>
   (error + unit) \<times> ('x, 'm) event list"
where
  "build_exposures retrieve_workbook retrieve_user from_tableau_workbook dbt_package_name
     tableau_projects_to_ignore [] trace = (Inr (), trace)"
| "build_exposures retrieve_workbook retrieve_user from_tableau_workbook dbt_package_name
     tableau_projects_to_ignore ((workbook_reference, found) # rest) trace =
     (case retrieve_workbook (ref_id workbook_reference) of
        Inl e \<Rightarrow> (Inl e, trace @ [RetrieveWorkbook (ref_id workbook_reference)])
      | Inr workbook \<Rightarrow>
          (case retrieve_user (owner_id workbook) of
             Inl e \<Rightarrow>
               (Inl e, trace @ [RetrieveWorkbook (ref_id workbook_reference),
                                RetrieveUser (owner_id workbook)])
           | Inr owner \<Rightarrow>
               if should_ignore_workbook workbook tableau_projects_to_ignore
               then build_exposures retrieve_workbook retrieve_user from_tableau_workbook
                      dbt_package_name tableau_projects_to_ignore rest
                      (trace @ [RetrieveWorkbook (ref_id workbook_reference),
                                RetrieveUser (owner_id workbook)])
               else build_exposures retrieve_workbook retrieve_user from_tableau_workbook
                      dbt_package_name tableau_projects_to_ignore rest
                      (trace @ [RetrieveWorkbook (ref_id workbook_reference),
                                RetrieveUser (owner_id workbook),
                                AddExposure
                                  (from_tableau_workbook dbt_package_name workbook owner found)
                                  found])))"

subsection \<open>The crawler\<close>

text \<open>
  \<^verbatim>\<open>tableau_crawler\<close> once the manifest is loaded: \<open>models\<close> is what
  \<^verbatim>\<open>retrieve_models_and_sources\<close> returned, and the two SQL mappings are what
  \<^verbatim>\<open>retrieve_custom_sql\<close> and \<^verbatim>\<open>retrieve_native_sql\<close> returned. The function runs both
  aggregations, the merge and the exposure-building loop, then
  \<^verbatim>\<open>tableau_client.sign_out()\<close> and the call that persists the manifest. An exception
  skips everything after it. The result is the outcome and the trace.
\<close>

definition tableau_crawler ::
  "(string \<Rightarrow> 'r \<Rightarrow> error + (string, 'm) dict) \<Rightarrow>
   (string \<Rightarrow> error + workbook) \<Rightarrow> (string \<Rightarrow> error + 'u) \<Rightarrow>
   (string \<Rightarrow> workbook \<Rightarrow> 'u \<Rightarrow> 'm list \<Rightarrow> 'x) \<Rightarrow>
   'r \<Rightarrow> (workbook_reference, string list) dict \<Rightarrow> (workbook_reference, string list) dict \<Rightarrow>
   string \<Rightarrow> string set \<Rightarrow> (error + unit) \<times> ('x, 'm) event list"
where
  "tableau_crawler search retrieve_workbook retrieve_user from_tableau_workbook
     models workbooks_custom_sqls workbooks_native_sqls dbt_package_name
     tableau_projects_to_ignore =
     (case parse_tables_from_sql search workbooks_custom_sqls models of
        Inl e \<Rightarrow> (Inl e, [])
      | Inr workbooks_custom_sql_models \<Rightarrow>
          (case parse_tables_from_sql search workbooks_native_sqls models of
             Inl e \<Rightarrow> (Inl e, [])
           | Inr workbooks_native_sql_models \<Rightarrow>
               (case build_exposures retrieve_workbook retrieve_user from_tableau_workbook
                       dbt_package_name tableau_projects_to_ignore
                       (merge_results workbooks_custom_sql_models workbooks_native_sql_models) [] of
                  (Inl e, trace) \<Rightarrow> (Inl e, trace)
                | (Inr u, trace) \<Rightarrow> (Inr (), trace @ [SignOut, Persist]))))"

section \<open>Collaborators modelled from the specification\<close>

text \<open>
  \<^verbatim>\<open>tableau.py\<close> imports the matcher, the exposure class and the manifest from other
  modules of the package. The crawler above takes them as parameters; this section
  gives the matcher and the exposure constructor a body, written from the
  specification, for the two properties that are about them.
\<close>

subsection \<open>Relations, owners and exposures\<close>

text \<open>
  Modelled from the spec: the manifest records the matcher returns and the crawler
  passes on, which \<^verbatim>\<open>DbtManifest.retrieve_models_and_sources\<close> builds outside
  \<^verbatim>\<open>tableau.py\<close>: a Relation of the data model (unique id, database, schema, relation
  name, display name).
\<close>

record relation =
  unique_id :: string
  database :: string
  schema :: string
  relation_name :: string
  display_name :: string

text \<open>
  Modelled from the spec: the owner that \<^verbatim>\<open>TableauRestClient.retrieve_user\<close> returns,
  a class outside \<^verbatim>\<open>tableau.py\<close>: name and contact.
\<close>

record user =
  user_name :: string
  user_email :: string

text \<open>
  Modelled from the spec: the Exposure of \<^verbatim>\<open>DbtExposure\<close>, a class outside
  \<^verbatim>\<open>tableau.py\<close>. The fields that the specification derives from the inputs are kept:
  name, owner name and contact, and the depends-on list of unique ids.
\<close>

record exposure =
  exposure_name :: string
  owner_name :: string
  owner_email :: string
  depends_on :: "string list"

subsection \<open>Exposure construction\<close>

text \<open>
  Modelled from the spec: the deduplication inside \<^verbatim>\<open>DbtExposure\<close>, ``deduplicate
  the matched-relations list by relation unique id before constructing the depends-on
  list''. The first occurrence of a unique id wins; \<open>seen\<close> holds the unique ids
  already kept.
\<close>

fun dedup_by_unique_id :: "string list \<Rightarrow> relation list \<Rightarrow> relation list" where
  "dedup_by_unique_id seen [] = []"
| "dedup_by_unique_id seen (r # rs) =
     (if unique_id r \<in> set seen then dedup_by_unique_id seen rs
      else r # dedup_by_unique_id (unique_id r # seen) rs)"

text \<open>
  Modelled from the spec: \<^verbatim>\<open>DbtExposure.from_tableau_workbook\<close>, ``one Exposure with
  owner/contact from metadata, depends-on from the deduplicated relation id list''.
\<close>

definition from_tableau_workbook :: "string \<Rightarrow> workbook \<Rightarrow> user \<Rightarrow> relation list \<Rightarrow> exposure" where
  "from_tableau_workbook dbt_package_name workbook owner found =
     \<lparr>exposure_name = workbook_name workbook,
      owner_name = user_name owner,
      owner_email = user_email owner,
      depends_on = map unique_id (dedup_by_unique_id [] found)\<rparr>"

subsection \<open>The SQL model matcher\<close>

text \<open>
  Modelled from the spec: the character classes of the SQL Model Matcher
  \<^verbatim>\<open>search_model_in_query\<close> (\<^verbatim>\<open>find_models\<close> in the specification), which lives in
  \<^verbatim>\<open>exposurescrawler.utils.query_parsing\<close>, outside \<^verbatim>\<open>tableau.py\<close>. The specification
  asks that a relation's qualified or unqualified name occur ``as a distinct token (not
  as a substring of a longer identifier) within the SQL text, case-insensitively,
  tolerant of quoting characters around identifiers''. An identifier is made of ASCII
  letters, digits and underscores.
\<close>

definition ident_char :: "char \<Rightarrow> bool" where
  "ident_char c =
     (let n = (of_char c :: nat)
      in (97 \<le> n \<and> n \<le> 122) \<or> (65 \<le> n \<and> n \<le> 90) \<or> (48 \<le> n \<and> n \<le> 57) \<or> n = 95)"

text \<open>
  Modelled from the spec: the quoting characters of the matcher (double quote, backtick,
  square brackets).
\<close>

definition quote_char :: "char \<Rightarrow> bool" where
  "quote_char c = (c = CHR 0x22 \<or> c = CHR 0x60 \<or> c = CHR ''['' \<or> c = CHR '']'')"

text \<open>
  Modelled from the spec: the matcher's case folding, ASCII upper-case letters to
  lower case.
\<close>

definition lower_char :: "char \<Rightarrow> char" where
  "lower_char c =
     (let n = (of_char c :: nat) in if 65 \<le> n \<and> n \<le> 90 then char_of (n + 32) else c)"

text \<open>
  Modelled from the spec: the matcher's normal form of the SQL text and of a name,
  quoting characters dropped and letters lowered.
\<close>

definition normalise :: "string \<Rightarrow> string" where
  "normalise s = map lower_char (filter (\<lambda>c. \<not> quote_char c) s)"

text \<open>
  Modelled from the spec: the qualified name the matcher looks for: database, schema
  and relation name.
\<close>

definition qualified_name :: "relation \<Rightarrow> string" where
  "qualified_name r = database r @ ''.'' @ schema r @ ''.'' @ relation_name r"

text \<open>
  Modelled from the spec: the matcher's test at one position: \<open>name\<close> is a prefix of
  \<open>doc\<close> and no identifier character follows it.
\<close>

fun starts_token :: "string \<Rightarrow> string \<Rightarrow> bool" where
  "starts_token [] [] = True"
| "starts_token [] (c # cs) = (\<not> ident_char c)"
| "starts_token (n # ns) [] = False"
| "starts_token (n # ns) (c # cs) = (n = c \<and> starts_token ns cs)"

text \<open>
  Modelled from the spec: the matcher's scan: the position of the first occurrence of
  \<open>name\<close> in \<open>doc\<close> that starts at a boundary (the start of the text, or after a
  character that is not an identifier character) and is not followed by an identifier
  character; \<open>i\<close> is the position of the head of \<open>doc\<close> in the whole text.
\<close>

fun find_token :: "string \<Rightarrow> bool \<Rightarrow> nat \<Rightarrow> string \<Rightarrow> nat option" where
  "find_token name boundary i [] = None"
| "find_token name boundary i (c # cs) =
     (if boundary \<and> starts_token name (c # cs) then Some i
      else find_token name (\<not> ident_char c) (Suc i) cs)"

text \<open>
  Modelled from the spec: the matcher's scan from the start of the text; an empty name
  is no token.
\<close>

definition token_pos :: "string \<Rightarrow> string \<Rightarrow> nat option" where
  "token_pos name doc = (if name = [] then None else find_token name True 0 doc)"

text \<open>
  Modelled from the spec: where the matcher first sees a relation in the normalised
  text, under its qualified or its unqualified name.
\<close>

definition relation_pos :: "relation \<Rightarrow> string \<Rightarrow> nat option" where
  "relation_pos r doc =
     (case token_pos (normalise (qualified_name r)) doc of
        Some i \<Rightarrow>
          (case token_pos (normalise (relation_name r)) doc of
             Some j \<Rightarrow> Some (min i j)
           | None \<Rightarrow> Some i)
      | None \<Rightarrow> token_pos (normalise (relation_name r)) doc)"

text \<open>
  Modelled from the spec: the relations of the registry that the matcher finds, each
  with the position where it is first seen.
\<close>

definition hits :: "string \<Rightarrow> relation list \<Rightarrow> (nat \<times> relation) list" where
  "hits doc registry =
     concat (map (\<lambda>r. case relation_pos r doc of Some i \<Rightarrow> [(i, r)] | None \<Rightarrow> []) registry)"

text \<open>
  Modelled from the spec: the matcher's result mapping, keyed by unique id, which
  absorbs a repeated unique id.
\<close>

fun insert_hits :: "(string, relation) dict \<Rightarrow> (nat \<times> relation) list \<Rightarrow> (string, relation) dict" where
  "insert_hits d [] = d"
| "insert_hits d ((i, r) # hs) = insert_hits (dict_set d (unique_id r) r) hs"

text \<open>
  Modelled from the spec: \<^verbatim>\<open>find_models(sql_text, registry)\<close>, a mapping from unique
  id to relation in the order in which the relations are first seen in the text. It is
  empty when no relation is found.
\<close>

definition find_models :: "string \<Rightarrow> relation list \<Rightarrow> (string, relation) dict" where
  "find_models sql_text registry =
     insert_hits [] (sort_key fst (hits (normalise sql_text) registry))"

text \<open>
  Modelled from the spec: \<^verbatim>\<open>search_model_in_query\<close> as the aggregator calls it; the
  specified matcher is pure and returns a mapping on every text.
\<close>

definition search_model_in_query :: "string \<Rightarrow> relation list \<Rightarrow> error + (string, relation) dict" where
  "search_model_in_query query models = Inr (find_models query models)"

section \<open>Reference definitions\<close>

text \<open>
  The definitions of this section are not code of the repository: they say, in the
  words of the specification, what the loops above are meant to compute, and the
  theorems compare the two.
\<close>

subsection \<open>Aggregation\<close>

text \<open>
  The concatenation of the values of the per-snippet match mappings \<open>m q\<close>, in snippet
  order, and the mapping that keeps a dashboard only if that list is not empty.
\<close>

definition concat_matches :: "(string \<Rightarrow> (string, 'm) dict) \<Rightarrow> string list \<Rightarrow> 'm list" where
  "concat_matches m custom_sqls = concat (map (\<lambda>q. dict_values (m q)) custom_sqls)"

definition aggregate_spec ::
  "(string \<Rightarrow> (string, 'm) dict) \<Rightarrow> ('k, string list) dict \<Rightarrow> ('k, 'm list) dict" where
  "aggregate_spec m workbooks_sqls =
     [(k, concat_matches m sqls). (k, sqls) \<leftarrow> workbooks_sqls, concat_matches m sqls \<noteq> []]"

text \<open>
  The exception of the first snippet, in iteration order, on which the matcher raises.
\<close>

fun first_error :: "(string \<Rightarrow> 'r \<Rightarrow> error + (string, 'm) dict) \<Rightarrow> 'r \<Rightarrow> string list \<Rightarrow> error option" where
  "first_error search models [] = None"
| "first_error search models (q # qs) =
     (case search q models of Inl e \<Rightarrow> Some e | Inr found \<Rightarrow> first_error search models qs)"

subsection \<open>Merge\<close>

text \<open>
  The lists that \<open>items\<close> holds for key \<open>k\<close>, in order, concatenated.
\<close>

definition found_for :: "'k \<Rightarrow> ('k, 'v list) dict \<Rightarrow> 'v list" where
  "found_for k items = concat (map snd (filter (\<lambda>kv. fst kv = k) items))"

subsection \<open>Traces\<close>

text \<open>
  The \<^verbatim>\<open>add_exposure\<close> calls of a trace, in order.
\<close>

fun added_exposures :: "('x, 'm) event list \<Rightarrow> ('x \<times> 'm list) list" where
  "added_exposures [] = []"
| "added_exposures (AddExposure x found # trace) = (x, found) # added_exposures trace"
| "added_exposures (_ # trace) = added_exposures trace"

text \<open>
  Both client calls succeed on every dashboard of \<open>ws\<close>: \<open>wb r\<close> is the workbook
  fetched for the reference \<open>r\<close> and \<open>usr r\<close> its owner.
\<close>

definition fetches_succeed ::
  "(string \<Rightarrow> error + workbook) \<Rightarrow> (string \<Rightarrow> error + 'u) \<Rightarrow>
   (workbook_reference \<Rightarrow> workbook) \<Rightarrow> (workbook_reference \<Rightarrow> 'u) \<Rightarrow>
   (workbook_reference, 'm list) dict \<Rightarrow> bool"
where
  "fetches_succeed retrieve_workbook retrieve_user wb usr ws =
     list_all (\<lambda>(r, found). retrieve_workbook (ref_id r) = Inr (wb r) \<and>
                              retrieve_user (owner_id (wb r)) = Inr (usr r)) ws"

text \<open>
  What one turn of the loop does for a dashboard whose two fetches succeed: the two
  client calls, then one \<^verbatim>\<open>add_exposure\<close> unless the workbook is excluded.
\<close>

definition dashboard_events ::
  "(string \<Rightarrow> workbook \<Rightarrow> 'u \<Rightarrow> 'm list \<Rightarrow> 'x) \<Rightarrow> string \<Rightarrow> string set \<Rightarrow>
   (workbook_reference \<Rightarrow> workbook) \<Rightarrow> (workbook_reference \<Rightarrow> 'u) \<Rightarrow>
   workbook_reference \<times> 'm list \<Rightarrow> ('x, 'm) event list"
where
  "dashboard_events mk pkg ign wb usr =
     (\<lambda>(r, found).
        [RetrieveWorkbook (ref_id r), RetrieveUser (owner_id (wb r))] @
        (if should_ignore_workbook (wb r) ign then []
         else [AddExposure (mk pkg (wb r) (usr r) found) found]))"

subsection \<open>Token occurrence\<close>

text \<open>
  The specification's words for a match, said without the scan: the name is not empty
  and the text splits into a part before, the name and a part after, where the part
  before does not end and the part after does not start with an identifier character.
\<close>

definition occurs_as_token :: "string \<Rightarrow> string \<Rightarrow> bool" where
  "occurs_as_token name doc \<longleftrightarrow>
     name \<noteq> [] \<and>
     (\<exists>pre post. doc = pre @ name @ post \<and>
        (pre = [] \<or> \<not> ident_char (last pre)) \<and>
        (post = [] \<or> \<not> ident_char (hd post)))"

text \<open>
  The same with the boundary before the text given by \<open>b\<close>, for the scan's invariant.
\<close>

definition occurs_after :: "bool \<Rightarrow> string \<Rightarrow> string \<Rightarrow> bool" where
  "occurs_after b name doc \<longleftrightarrow>
     (\<exists>pre post. doc = pre @ name @ post \<and>
        (if pre = [] then b else \<not> ident_char (last pre)) \<and>
        (post = [] \<or> \<not> ident_char (hd post)))"

section \<open>Example inputs\<close>

text \<open>
  Three dashboard references, and a fourth with the identifier of the first under
  another name; a matcher that knows two snippets and raises on a third;
  a Tableau client that knows the workbooks \<open>A\<close> (project Sales) and \<open>B\<close> (no project
  name) and the user \<open>u1\<close>, and fails on anything else; two relations, one named inside
  the other; and a quoted, upper-case reference to the longer one,
  \<^verbatim>\<open>x "DW"."STG_Orders"\<close>.
\<close>

definition dash_a :: workbook_reference where
  "dash_a = \<lparr>ref_id = ''A'', ref_name = ''Sales''\<rparr>"

definition dash_b :: workbook_reference where
  "dash_b = \<lparr>ref_id = ''B'', ref_name = ''Sandbox''\<rparr>"

definition dash_c :: workbook_reference where
  "dash_c = \<lparr>ref_id = ''C'', ref_name = ''Gone''\<rparr>"


definition example_matches :: "string \<Rightarrow> (string, string) dict" where
  "example_matches q =
     (if q = ''o'' then [(''m1'', ''orders'')]
      else if q = ''c'' then [(''m2'', ''customers'')]
      else [])"

definition example_search :: "string \<Rightarrow> unit \<Rightarrow> error + (string, string) dict" where
  "example_search q models =
     (if q = ''bad'' then Inl (Error ''scan'') else Inr (example_matches q))"

definition workbook_a :: workbook where
  "workbook_a = \<lparr>workbook_name = ''KPIs'', project_name = Some ''Sales'', owner_id = ''u1''\<rparr>"

definition workbook_b :: workbook where
  "workbook_b = \<lparr>workbook_name = ''Scratch'', project_name = Some [], owner_id = ''u1''\<rparr>"

definition example_retrieve_workbook :: "string \<Rightarrow> error + workbook" where
  "example_retrieve_workbook workbook_id =
     (if workbook_id = ''A'' then Inr workbook_a
      else if workbook_id = ''B'' then Inr workbook_b
      else Inl (Error ''404''))"

definition example_retrieve_user :: "string \<Rightarrow> error + string" where
  "example_retrieve_user user_id =
     (if user_id = ''u1'' then Inr ''alice'' else Inl (Error ''no user''))"

definition example_wb :: "workbook_reference \<Rightarrow> workbook" where
  "example_wb r = (if ref_id r = ''A'' then workbook_a else workbook_b)"

definition example_usr :: "workbook_reference \<Rightarrow> string" where
  "example_usr r = ''alice''"

definition example_exposure :: "string \<Rightarrow> workbook \<Rightarrow> string \<Rightarrow> string list \<Rightarrow> string \<times> string" where
  "example_exposure dbt_package_name workbook owner found = (workbook_name workbook, owner)"

definition orders_relation :: relation where
  "orders_relation =
     \<lparr>unique_id = ''m1'', database = ''db'', schema = ''dw'', relation_name = ''orders'',
      display_name = ''orders''\<rparr>"

definition stg_orders_relation :: relation where
  "stg_orders_relation =
     \<lparr>unique_id = ''m2'', database = ''db'', schema = ''dw'', relation_name = ''stg_orders'',
      display_name = ''stg_orders''\<rparr>"

definition example_sql :: string where
  "example_sql =
     ''x '' @ [CHR 0x22] @ ''DW'' @ [CHR 0x22] @ ''.'' @ [CHR 0x22] @ ''STG_Orders'' @ [CHR 0x22]"

text \<open>The same client, returning the owner as a record.\<close>

definition example_retrieve_owner :: "string \<Rightarrow> error + user" where
  "example_retrieve_owner user_id =
     (if user_id = ''u1'' then Inr \<lparr>user_name = ''alice'', user_email = ''a@x''\<rparr>
      else Inl (Error ''no user''))"

section \<open>Properties\<close>

subsection \<open>Exclusion\<close>

text \<open>
  Claim C3. For every workbook and every ignore set of project names,
  \<^verbatim>\<open>_should_ignore_workbook\<close> returns true if the workbook's project name is empty
  (absent, or the empty string), returns true if the project name is a member of the
  ignore set, and returns false for every workbook whose project name is non-empty and
  not in the ignore set.
\<close>

theorem should_ignore_workbook_cases:
  "(project_name w = None \<or> project_name w = Some [] \<longrightarrow> should_ignore_workbook w ign) \<and>
   (\<forall>p. project_name w = Some p \<and> p \<in> ign \<longrightarrow> should_ignore_workbook w ign) \<and>
   (\<forall>p. project_name w = Some p \<and> p \<noteq> [] \<and> p \<notin> ign \<longrightarrow> \<not> should_ignore_workbook w ign)"
  by (auto simp: should_ignore_workbook_def falsy_name_def)

theorem should_ignore_workbook_cases_witness:
  "should_ignore_workbook \<lparr>workbook_name = ''a'', project_name = Some [], owner_id = ''u''\<rparr> {''Sandbox''} \<and>
   should_ignore_workbook \<lparr>workbook_name = ''b'', project_name = Some ''Sandbox'', owner_id = ''u''\<rparr> {''Sandbox''} \<and>
   \<not> should_ignore_workbook \<lparr>workbook_name = ''c'', project_name = Some ''Sales'', owner_id = ''u''\<rparr> {''Sandbox''}"
proof (intro conjI)
  show "should_ignore_workbook \<lparr>workbook_name = ''a'', project_name = Some [], owner_id = ''u''\<rparr> {''Sandbox''}"
    using should_ignore_workbook_cases [THEN conjunct1, rule_format] by simp
  show "should_ignore_workbook \<lparr>workbook_name = ''b'', project_name = Some ''Sandbox'', owner_id = ''u''\<rparr> {''Sandbox''}"
    using should_ignore_workbook_cases [THEN conjunct2, THEN conjunct1, rule_format, of _ "''Sandbox''"] by simp
  show "\<not> should_ignore_workbook \<lparr>workbook_name = ''c'', project_name = Some ''Sales'', owner_id = ''u''\<rparr> {''Sandbox''}"
    using should_ignore_workbook_cases [THEN conjunct2, THEN conjunct2, rule_format, of _ "''Sales''"] by simp
qed

subsection \<open>Aggregation\<close>

lemma dash_a_neq_b: "dash_a \<noteq> dash_b"
  by (simp add: dash_a_def dash_b_def)

lemma dict_values_Nil [simp]: "dict_values [] = []"
  by (simp add: dict_values_def)

lemma collect_found_succeeds:
  assumes "\<And>q. q \<in> set sqls \<Longrightarrow> search q models = Inr (m q)"
  shows "collect_found search models sqls acc = Inr (acc @ concat_matches m sqls)"
  using assms
proof (induction sqls arbitrary: acc)
  case Nil
  then show ?case by (simp add: concat_matches_def)
next
  case (Cons q sqls)
  have q: "search q models = Inr (m q)" using Cons.prems by simp
  have rest: "\<And>acc'. collect_found search models sqls acc' = Inr (acc' @ concat_matches m sqls)"
    using Cons.IH Cons.prems by simp
  show ?case
    by (cases "m q = []") (simp_all add: q rest concat_matches_def)
qed

lemma dict_set_fresh: "k \<notin> set (dict_keys d) \<Longrightarrow> dict_set d k v = d @ [(k, v)]"
  by (induction d) (auto simp: dict_keys_def)

lemma aggregate_spec_Cons:
  "aggregate_spec m ((k, sqls) # ws) =
     (if concat_matches m sqls \<noteq> [] then (k, concat_matches m sqls) # aggregate_spec m ws
      else aggregate_spec m ws)"
  by (simp add: aggregate_spec_def)

lemma aggregate_spec_keys: "set (dict_keys (aggregate_spec m ws)) \<subseteq> set (dict_keys ws)"
  by (force simp: aggregate_spec_def dict_keys_def)

lemma parse_loop_succeeds:
  assumes "\<And>q. q \<in> set (concat (dict_values ws)) \<Longrightarrow> search q models = Inr (m q)"
    and "distinct (dict_keys ws)"
    and "set (dict_keys ws) \<inter> set (dict_keys out) = {}"
  shows "parse_loop search models ws out = Inr (out @ aggregate_spec m ws)"
  using assms
proof (induction ws arbitrary: out)
  case Nil
  then show ?case by (simp add: aggregate_spec_def)
next
  case (Cons kv ws)
  obtain k sqls where kv: "kv = (k, sqls)" by (cases kv)
  have inner: "collect_found search models sqls [] = Inr ([] @ concat_matches m sqls)"
    by (rule collect_found_succeeds) (use Cons.prems(1) kv in \<open>simp add: dict_values_def\<close>)
  have matcher: "\<And>q. q \<in> set (concat (dict_values ws)) \<Longrightarrow> search q models = Inr (m q)"
    using Cons.prems(1) by (simp add: dict_values_def)
  have dist: "distinct (dict_keys ws)" and knew: "k \<notin> set (dict_keys ws)"
    using Cons.prems(2) kv by (simp_all add: dict_keys_def)
  have kout: "k \<notin> set (dict_keys out)"
    using Cons.prems(3) kv by (auto simp: dict_keys_def)
  have disj: "set (dict_keys ws) \<inter> set (dict_keys out) = {}"
    using Cons.prems(3) by (auto simp: dict_keys_def)
  show ?case
  proof (cases "concat_matches m sqls = []")
    case True
    then show ?thesis
      using Cons.IH [OF matcher dist disj] inner
      by (simp add: kv aggregate_spec_Cons)
  next
    case False
    have disj': "set (dict_keys ws) \<inter> set (dict_keys (out @ [(k, concat_matches m sqls)])) = {}"
      using disj knew by (auto simp: dict_keys_def)
    show ?thesis
      using Cons.IH [OF matcher dist disj'] inner False
      by (simp add: kv aggregate_spec_Cons dict_set_fresh [OF kout])
  qed
qed

lemma map_of_aggregate_spec:
  assumes "distinct (dict_keys ws)" and "(k, sqls) \<in> set ws"
  shows "map_of (aggregate_spec m ws) k =
           (if concat_matches m sqls = [] then None else Some (concat_matches m sqls))"
  using assms
proof (induction ws)
  case Nil
  then show ?case by simp
next
  case (Cons kv ws)
  obtain k' sqls' where kv: "kv = (k', sqls')" by (cases kv)
  have notin: "k' \<notin> set (dict_keys ws)" and dist: "distinct (dict_keys ws)"
    using Cons.prems(1) kv by (simp_all add: dict_keys_def)
  show ?case
  proof (cases "(k, sqls) = (k', sqls')")
    case True
    have "k \<notin> set (dict_keys (aggregate_spec m ws))"
      using notin True aggregate_spec_keys [of m ws] by auto
    then have "map_of (aggregate_spec m ws) k = None"
      by (simp add: map_of_eq_None_iff dict_keys_def)
    then show ?thesis using True by (simp add: kv aggregate_spec_Cons)
  next
    case False
    then have mem: "(k, sqls) \<in> set ws" using Cons.prems(2) kv by auto
    then have "k \<noteq> k'" using notin by (force simp: dict_keys_def)
    then show ?thesis using Cons.IH [OF dist mem] by (simp add: kv aggregate_spec_Cons)
  qed
qed

text \<open>
  Claim C1. For every input mapping of dashboard references to lists of SQL snippets,
  \<^verbatim>\<open>_parse_tables_from_sql\<close> produces, per dashboard, the concatenation of the values
  of the matcher's per-snippet result mappings taken in snippet order, and a dashboard is
  a key of the output if and only if that concatenated list is non-empty; a dashboard
  none of whose snippets matches a known relation does not appear in the output. The
  input is a dictionary (its keys are distinct) and \<open>m q\<close> is the mapping the matcher
  returns on snippet \<open>q\<close>.
\<close>

theorem parse_tables_from_sql_aggregates:
  assumes "distinct (dict_keys workbooks_sqls)"
    and "\<And>q. q \<in> set (concat (dict_values workbooks_sqls)) \<Longrightarrow> search q models = Inr (m q)"
  shows "\<exists>output. parse_tables_from_sql search workbooks_sqls models = Inr output \<and>
           output = aggregate_spec m workbooks_sqls \<and>
           (\<forall>k sqls. (k, sqls) \<in> set workbooks_sqls \<longrightarrow>
              (k \<in> set (dict_keys output) \<longleftrightarrow> concat_matches m sqls \<noteq> []) \<and>
              map_of output k =
                (if concat_matches m sqls = [] then None else Some (concat_matches m sqls)))"
proof -
  have run: "parse_tables_from_sql search workbooks_sqls models = Inr (aggregate_spec m workbooks_sqls)"
    unfolding parse_tables_from_sql_def
    using parse_loop_succeeds [of workbooks_sqls search models m "[]"] assms
    by (simp add: dict_keys_def)
  have look: "\<And>k sqls. (k, sqls) \<in> set workbooks_sqls \<Longrightarrow>
      map_of (aggregate_spec m workbooks_sqls) k =
        (if concat_matches m sqls = [] then None else Some (concat_matches m sqls))"
    by (rule map_of_aggregate_spec [OF assms(1)])
  have keys: "\<And>k sqls. (k, sqls) \<in> set workbooks_sqls \<Longrightarrow>
      (k \<in> set (dict_keys (aggregate_spec m workbooks_sqls)) \<longleftrightarrow> concat_matches m sqls \<noteq> [])"
  proof -
    fix k sqls assume "(k, sqls) \<in> set workbooks_sqls"
    from look [OF this] show "k \<in> set (dict_keys (aggregate_spec m workbooks_sqls)) \<longleftrightarrow> concat_matches m sqls \<noteq> []"
      by (cases "concat_matches m sqls = []")
         (auto simp: dict_keys_def map_of_eq_None_iff dest!: map_of_SomeD intro: rev_image_eqI)
  qed
  show ?thesis using run look keys by blast
qed

theorem parse_tables_from_sql_aggregates_witness:
  "parse_tables_from_sql example_search
     [(dash_a, [''o'', ''x'', ''c'']), (dash_b, [''x''])] () =
   Inr [(dash_a, [''orders'', ''customers''])]"
proof -
  have d: "distinct (dict_keys [(dash_a, [''o'', ''x'', ''c'']), (dash_b, [''x''])])"
    by (simp add: dict_keys_def dash_a_neq_b)
  have s: "\<And>q. q \<in> set (concat (dict_values [(dash_a, [''o'', ''x'', ''c'']), (dash_b, [''x''])])) \<Longrightarrow>
             example_search q () = Inr (example_matches q)"
    by (auto simp: dict_values_def example_search_def)
  from parse_tables_from_sql_aggregates
         [where search = example_search and m = example_matches and models = "()", OF d s]
  have "parse_tables_from_sql example_search
          [(dash_a, [''o'', ''x'', ''c'']), (dash_b, [''x''])] () =
        Inr (aggregate_spec example_matches [(dash_a, [''o'', ''x'', ''c'']), (dash_b, [''x''])])"
    by blast
  then show ?thesis
    by (simp add: aggregate_spec_def concat_matches_def dict_values_def example_matches_def)
qed

subsection \<open>Merge\<close>

lemma dict_keys_simps [simp]:
  "dict_keys [] = []" "dict_keys ((k, v) # d) = k # dict_keys d"
  "dict_keys (d @ d') = dict_keys d @ dict_keys d'"
  by (simp_all add: dict_keys_def)

lemma setdefault_extend_keys:
  "dict_keys (setdefault_extend d k found) =
     (if k \<in> set (dict_keys d) then dict_keys d else dict_keys d @ [k])"
  by (induction d) auto

lemma map_of_setdefault_extend:
  "map_of (setdefault_extend d k found) k' =
     (if k' = k then Some ((case map_of d k of None \<Rightarrow> [] | Some v \<Rightarrow> v) @ found)
      else map_of d k')"
  by (induction d) auto

lemma merge_loop_keys:
  "set (dict_keys (merge_loop items acc)) = set (dict_keys acc) \<union> set (dict_keys items)"
  by (induction items acc rule: merge_loop.induct) (auto simp: setdefault_extend_keys)

lemma merge_loop_distinct:
  "distinct (dict_keys acc) \<Longrightarrow> distinct (dict_keys (merge_loop items acc))"
  by (induction items acc rule: merge_loop.induct) (auto simp: setdefault_extend_keys)

lemma found_for_simps [simp]:
  "found_for k [] = []"
  "found_for k ((k', v) # items) = (if k' = k then v @ found_for k items else found_for k items)"
  "found_for k (xs @ ys) = found_for k xs @ found_for k ys"
  by (simp_all add: found_for_def)

lemma map_of_merge_loop:
  "map_of (merge_loop items acc) k =
     (case map_of acc k of
        None \<Rightarrow> if k \<in> set (dict_keys items) then Some (found_for k items) else None
      | Some v \<Rightarrow> Some (v @ found_for k items))"
  by (induction items acc rule: merge_loop.induct)
     (auto simp: map_of_setdefault_extend split: option.splits)

lemma found_for_absent: "k \<notin> set (dict_keys d) \<Longrightarrow> found_for k d = []"
  by (induction d) auto

lemma found_for_distinct:
  "distinct (dict_keys d) \<Longrightarrow> found_for k d = (case map_of d k of None \<Rightarrow> [] | Some v \<Rightarrow> v)"
proof (induction d)
  case Nil
  then show ?case by simp
next
  case (Cons kv d)
  obtain k' v where kv: "kv = (k', v)" by (cases kv)
  from Cons.prems kv have fresh: "k' \<notin> set (dict_keys d)" and dist: "distinct (dict_keys d)"
    by simp_all
  show ?case
  proof (cases "k' = k")
    case True
    then show ?thesis using fresh by (simp add: kv found_for_absent)
  next
    case False
    then show ?thesis using Cons.IH [OF dist] by (simp add: kv)
  qed
qed

lemma map_of_None_keys: "map_of d k = None \<longleftrightarrow> k \<notin> set (dict_keys d)"
  by (simp add: map_of_eq_None_iff dict_keys_def)

text \<open>
  Claim C2. For every pair of per-source mappings (custom SQL and native SQL), the merge
  produces a mapping whose key set is the union of the two key sets; a dashboard present
  in both has the custom-SQL list followed by the native-SQL list, duplicates kept; a
  dashboard present in one has that one's list.
\<close>

theorem merge_results_union:
  assumes "distinct (dict_keys custom)" and "distinct (dict_keys native)"
  shows "set (dict_keys (merge_results custom native)) = set (dict_keys custom) \<union> set (dict_keys native) \<and>
         distinct (dict_keys (merge_results custom native)) \<and>
         (\<forall>k. map_of (merge_results custom native) k =
            (case (map_of custom k, map_of native k) of
               (None, None) \<Rightarrow> None
             | (Some a, None) \<Rightarrow> Some a
             | (None, Some b) \<Rightarrow> Some b
             | (Some a, Some b) \<Rightarrow> Some (a @ b)))"
proof (intro conjI allI)
  show "set (dict_keys (merge_results custom native)) = set (dict_keys custom) \<union> set (dict_keys native)"
    by (simp add: merge_results_def merge_loop_keys)
  show "distinct (dict_keys (merge_results custom native))"
    by (simp add: merge_results_def merge_loop_distinct)
  fix k
  have "map_of (merge_results custom native) k =
          (if k \<in> set (dict_keys custom) \<union> set (dict_keys native)
           then Some (found_for k custom @ found_for k native) else None)"
    by (simp add: merge_results_def map_of_merge_loop)
  then show "map_of (merge_results custom native) k =
            (case (map_of custom k, map_of native k) of
               (None, None) \<Rightarrow> None
             | (Some a, None) \<Rightarrow> Some a
             | (None, Some b) \<Rightarrow> Some b
             | (Some a, Some b) \<Rightarrow> Some (a @ b))"
    using assms
    by (auto simp: found_for_distinct map_of_None_keys [symmetric] split: option.splits)
qed

theorem merge_results_union_witness:
  "map_of (merge_results [(dash_a, [''orders''])] [(dash_b, [''customers'']), (dash_a, [''orders''])]) dash_a
     = Some [''orders'', ''orders''] \<and>
   set (dict_keys (merge_results [(dash_a, [''orders''])] [(dash_b, [''customers'']), (dash_a, [''orders''])]))
     = {dash_a, dash_b}"
proof -
  have d1: "distinct (dict_keys [(dash_a, [''orders''])])"
    by (simp add: dict_keys_def)
  have d2: "distinct (dict_keys [(dash_b, [''customers'']), (dash_a, [''orders''])])"
    using dash_a_neq_b by (simp add: dict_keys_def eq_commute)
  note m = merge_results_union [OF d1 d2]
  have "map_of (merge_results [(dash_a, [''orders''])] [(dash_b, [''customers'']), (dash_a, [''orders''])]) dash_a
     = Some [''orders'', ''orders'']"
    using m [THEN conjunct2, THEN conjunct2, rule_format, of dash_a] dash_a_neq_b
    by (simp add: eq_commute)
  moreover have "set (dict_keys (merge_results [(dash_a, [''orders''])] [(dash_b, [''customers'']), (dash_a, [''orders''])]))
     = {dash_a, dash_b}"
    using m [THEN conjunct1] by (auto simp: dict_keys_def)
  ultimately show ?thesis by simp
qed
subsection \<open>The exposure-building loop\<close>

lemma added_exposures_append [simp]:
  "added_exposures (xs @ ys) = added_exposures xs @ added_exposures ys"
  by (induction xs rule: added_exposures.induct) simp_all

lemma fetches_succeed_simps [simp]:
  "fetches_succeed rw ru wb usr [] = True"
  "fetches_succeed rw ru wb usr ((r, found) # ws) =
     (rw (ref_id r) = Inr (wb r) \<and> ru (owner_id (wb r)) = Inr (usr r) \<and>
      fetches_succeed rw ru wb usr ws)"
  "fetches_succeed rw ru wb usr (ws @ ws') =
     (fetches_succeed rw ru wb usr ws \<and> fetches_succeed rw ru wb usr ws')"
  by (simp_all add: fetches_succeed_def)

lemma build_exposures_prefix:
  "fetches_succeed rw ru wb usr pre \<Longrightarrow>
   build_exposures rw ru mk pkg ign (pre @ rest) trace =
     build_exposures rw ru mk pkg ign rest
       (trace @ concat (map (dashboard_events mk pkg ign wb usr) pre))"
proof (induction pre arbitrary: trace)
  case Nil
  then show ?case by simp
next
  case (Cons kv pre)
  obtain r found where kv: "kv = (r, found)" by (cases kv)
  from Cons.prems kv have w: "rw (ref_id r) = Inr (wb r)" and u: "ru (owner_id (wb r)) = Inr (usr r)"
    and rest: "fetches_succeed rw ru wb usr pre"
    by simp_all
  show ?case
    by (cases "should_ignore_workbook (wb r) ign")
       (simp_all add: kv w u Cons.IH [OF rest] dashboard_events_def)
qed

lemma build_exposures_all:
  "fetches_succeed rw ru wb usr ws \<Longrightarrow>
   build_exposures rw ru mk pkg ign ws trace =
     (Inr (), trace @ concat (map (dashboard_events mk pkg ign wb usr) ws))"
  using build_exposures_prefix [of rw ru wb usr ws mk pkg ign "[]" trace] by simp

lemma added_exposures_dashboard_events:
  "added_exposures (concat (map (dashboard_events mk pkg ign wb usr) ws)) =
     map (\<lambda>(r, found). (mk pkg (wb r) (usr r) found, found))
       (filter (\<lambda>(r, found). \<not> should_ignore_workbook (wb r) ign) ws)"
  by (induction ws) (auto simp: dashboard_events_def)

lemma no_persist_dashboard_events:
  "Persist \<notin> set (concat (map (dashboard_events mk pkg ign wb usr) ws)) \<and>
   SignOut \<notin> set (concat (map (dashboard_events mk pkg ign wb usr) ws))"
  by (induction ws) (auto simp: dashboard_events_def)

lemma build_exposures_fails_workbook:
  assumes "fetches_succeed rw ru wb usr pre" and "rw (ref_id r) = Inl e"
  shows "build_exposures rw ru mk pkg ign (pre @ (r, found) # post) trace =
           (Inl e, trace @ concat (map (dashboard_events mk pkg ign wb usr) pre) @
                   [RetrieveWorkbook (ref_id r)])"
  using assms(2) by (simp add: build_exposures_prefix [OF assms(1)])

lemma build_exposures_fails_user:
  assumes "fetches_succeed rw ru wb usr pre" and "rw (ref_id r) = Inr w"
    and "ru (owner_id w) = Inl e"
  shows "build_exposures rw ru mk pkg ign (pre @ (r, found) # post) trace =
           (Inl e, trace @ concat (map (dashboard_events mk pkg ign wb usr) pre) @
                   [RetrieveWorkbook (ref_id r), RetrieveUser (owner_id w)])"
  using assms(2,3) by (simp add: build_exposures_prefix [OF assms(1)])


subsection \<open>Matcher errors\<close>

lemma first_error_append:
  "first_error search models (qs @ qs') =
     (case first_error search models qs of Some e \<Rightarrow> Some e | None \<Rightarrow> first_error search models qs')"
  by (induction qs) (auto split: sum.splits)

lemma first_error_Some_iff:
  "first_error search models qs = Some e \<longleftrightarrow>
     (\<exists>pre q post. qs = pre @ q # post \<and> (\<forall>p \<in> set pre. \<exists>found. search p models = Inr found) \<and>
        search q models = Inl e)"
proof (induction qs)
  case Nil
  then show ?case by simp
next
  case (Cons a qs)
  show ?case
  proof (cases "search a models")
    case (Inl e')
    have "(\<exists>pre q post. a # qs = pre @ q # post \<and> (\<forall>p \<in> set pre. \<exists>found. search p models = Inr found) \<and>
        search q models = Inl e) \<longleftrightarrow> e' = e"
    proof
      assume "\<exists>pre q post. a # qs = pre @ q # post \<and> (\<forall>p \<in> set pre. \<exists>found. search p models = Inr found) \<and>
        search q models = Inl e"
      then obtain pre q post where eq: "a # qs = pre @ q # post"
        and ok: "\<forall>p \<in> set pre. \<exists>found. search p models = Inr found" and bad: "search q models = Inl e"
        by blast
      show "e' = e"
      proof (cases pre)
        case Nil
        then show ?thesis using eq bad Inl by simp
      next
        case (Cons p pre')
        then have "p = a" using eq by simp
        then show ?thesis using ok Cons Inl by simp
      qed
    next
      assume "e' = e"
      then have "a # qs = [] @ a # qs \<and> (\<forall>p \<in> set []. \<exists>found. search p models = Inr found) \<and>
        search a models = Inl e" using Inl by simp
      then show "\<exists>pre q post. a # qs = pre @ q # post \<and> (\<forall>p \<in> set pre. \<exists>found. search p models = Inr found) \<and>
        search q models = Inl e" by blast
    qed
    then show ?thesis using Inl by simp
  next
    case (Inr found)
    have "(\<exists>pre q post. a # qs = pre @ q # post \<and> (\<forall>p \<in> set pre. \<exists>found. search p models = Inr found) \<and>
        search q models = Inl e) \<longleftrightarrow>
      (\<exists>pre q post. qs = pre @ q # post \<and> (\<forall>p \<in> set pre. \<exists>found. search p models = Inr found) \<and>
        search q models = Inl e)" (is "?L \<longleftrightarrow> ?R")
    proof
      assume ?L
      then obtain pre q post where eq: "a # qs = pre @ q # post"
        and ok: "\<forall>p \<in> set pre. \<exists>found. search p models = Inr found" and bad: "search q models = Inl e"
        by blast
      show ?R
      proof (cases pre)
        case Nil
        then show ?thesis using eq bad Inr by simp
      next
        case (Cons p pre')
        then have "qs = pre' @ q # post" "\<forall>p \<in> set pre'. \<exists>found. search p models = Inr found"
          using eq ok by simp_all
        then show ?thesis using bad by blast
      qed
    next
      assume ?R
      then obtain pre q post where eq: "qs = pre @ q # post"
        and ok: "\<forall>p \<in> set pre. \<exists>found. search p models = Inr found" and bad: "search q models = Inl e"
        by blast
      have "a # qs = (a # pre) @ q # post" "\<forall>p \<in> set (a # pre). \<exists>found. search p models = Inr found"
        using eq ok Inr by simp_all
      then show ?L using bad by blast
    qed
    then show ?thesis using Inr Cons.IH by simp
  qed
qed

lemma collect_found_error:
  "collect_found search models sqls acc = Inl e \<longleftrightarrow> first_error search models sqls = Some e"
  by (induction sqls arbitrary: acc) (auto split: sum.splits)

lemma parse_loop_error:
  "parse_loop search models ws out = Inl e \<longleftrightarrow>
     first_error search models (concat (dict_values ws)) = Some e"
proof (induction ws arbitrary: out)
  case Nil
  then show ?case by simp
next
  case (Cons kv ws)
  obtain k sqls where kv: "kv = (k, sqls)" by (cases kv)
  show ?case
  proof (cases "collect_found search models sqls []")
    case (Inl e')
    then have "first_error search models sqls = Some e'"
      by (simp add: collect_found_error)
    then show ?thesis using Inl by (simp add: kv dict_values_def first_error_append)
  next
    case (Inr all_found)
    have "first_error search models sqls = None"
    proof (cases "first_error search models sqls")
      case None
      then show ?thesis .
    next
      case (Some e')
      then have "collect_found search models sqls [] = Inl e'" by (simp add: collect_found_error)
      then show ?thesis using Inr by simp
    qed
    then show ?thesis
      using Inr Cons.IH by (simp add: kv dict_values_def first_error_append)
  qed
qed

text \<open>
  Claim C7, as amended. \<^verbatim>\<open>_parse_tables_from_sql\<close> has no handler around the matcher
  call: when the matcher raises on a snippet, the exception leaves the aggregator, which
  returns no mapping at all. The aggregation fails with \<open>e\<close> exactly when \<open>e\<close> is raised
  on the first snippet, in iteration order over all dashboards, on which the matcher
  raises. (A snippet on which the matcher returns an empty mapping contributes nothing
  and does not stop the loop, as the aggregation theorem shows.)
\<close>

theorem matcher_error_propagates:
  "parse_tables_from_sql search workbooks_sqls models = Inl e \<longleftrightarrow>
     (\<exists>pre q post. concat (dict_values workbooks_sqls) = pre @ q # post \<and>
        (\<forall>p \<in> set pre. \<exists>found. search p models = Inr found) \<and>
        search q models = Inl e)"
  unfolding parse_tables_from_sql_def parse_loop_error first_error_Some_iff ..

theorem matcher_error_propagates_witness:
  "parse_tables_from_sql example_search [(dash_a, [''o'', ''bad'']), (dash_b, [''c''])] () =
     Inl (Error ''scan'')"
proof -
  have "concat (dict_values [(dash_a, [''o'', ''bad'']), (dash_b, [''c''])]) = [''o''] @ ''bad'' # [''c''] \<and>
        (\<forall>p \<in> set [''o'']. \<exists>found. example_search p () = Inr found) \<and>
        example_search ''bad'' () = Inl (Error ''scan'')"
    by (simp add: dict_values_def example_search_def)
  then show ?thesis
    using matcher_error_propagates
      [of example_search "[(dash_a, [''o'', ''bad'']), (dash_b, [''c''])]" "()" "Error ''scan''"]
    by blast
qed

text \<open>
  Claim C7 as stated fails: a dashboard with a snippet on which the matcher raises and
  a snippet that matches \<open>orders\<close> is not aggregated to \<open>[orders]\<close>; the run of the
  aggregator ends with the exception.
\<close>

theorem snippet_failure_not_isolated:
  "parse_tables_from_sql example_search [(dash_a, [''bad'', ''o''])] () = Inl (Error ''scan'') \<and>
   parse_tables_from_sql example_search [(dash_a, [''bad'', ''o''])] () \<noteq> Inr [(dash_a, [''orders''])]"
  by (simp add: parse_tables_from_sql_def example_search_def)

subsection \<open>Exclusion and fetch failures in the loop\<close>

text \<open>
  Claim C6. For every dashboard of the merged mapping, the loop calls
  \<^verbatim>\<open>retrieve_workbook\<close> and then \<^verbatim>\<open>retrieve_user\<close> before it evaluates
  \<^verbatim>\<open>_should_ignore_workbook\<close>, so both calls are made for a dashboard that is then
  excluded; an excluded dashboard adds no exposure and raises nothing, and the loop goes
  on with the remaining dashboards. First part: when the fetches succeed, the trace of
  the whole loop is, dashboard after dashboard, the two calls followed by at most one
  \<^verbatim>\<open>add_exposure\<close>. Second part: after a prefix \<open>pre\<close> of dashboards, an excluded
  dashboard leaves exactly its two calls in the trace and the loop continues with \<open>post\<close>.
\<close>

theorem excluded_dashboard_fetched_then_skipped:
  "(fetches_succeed rw ru wb usr ws \<longrightarrow>
      build_exposures rw ru mk pkg ign ws trace =
        (Inr (), trace @ concat (map (dashboard_events mk pkg ign wb usr) ws))) \<and>
   (fetches_succeed rw ru wb usr pre \<and> rw (ref_id r) = Inr w \<and> ru (owner_id w) = Inr u \<and>
    should_ignore_workbook w ign \<longrightarrow>
      build_exposures rw ru mk pkg ign (pre @ (r, found) # post) trace =
        build_exposures rw ru mk pkg ign post
          (trace @ concat (map (dashboard_events mk pkg ign wb usr) pre) @
           [RetrieveWorkbook (ref_id r), RetrieveUser (owner_id w)]))"
proof (intro conjI impI)
  assume "fetches_succeed rw ru wb usr ws"
  then show "build_exposures rw ru mk pkg ign ws trace =
        (Inr (), trace @ concat (map (dashboard_events mk pkg ign wb usr) ws))"
    by (rule build_exposures_all)
next
  assume a: "fetches_succeed rw ru wb usr pre \<and> rw (ref_id r) = Inr w \<and> ru (owner_id w) = Inr u \<and>
    should_ignore_workbook w ign"
  then have pre: "fetches_succeed rw ru wb usr pre" by simp
  show "build_exposures rw ru mk pkg ign (pre @ (r, found) # post) trace =
        build_exposures rw ru mk pkg ign post
          (trace @ concat (map (dashboard_events mk pkg ign wb usr) pre) @
           [RetrieveWorkbook (ref_id r), RetrieveUser (owner_id w)])"
    using a by (simp add: build_exposures_prefix [OF pre])
qed


lemma example_ignore:
  "\<not> should_ignore_workbook workbook_a {''Sandbox''}" "should_ignore_workbook workbook_b {''Sandbox''}"
  by (simp_all add: should_ignore_workbook_def falsy_name_def workbook_a_def workbook_b_def)

theorem excluded_dashboard_fetched_then_skipped_witness:
  "build_exposures example_retrieve_workbook example_retrieve_user example_exposure ''pkg''
     {''Sandbox''} [(dash_b, [''orders'']), (dash_a, [''customers''])] [] =
   (Inr (), [RetrieveWorkbook ''B'', RetrieveUser ''u1'',
             RetrieveWorkbook ''A'', RetrieveUser ''u1'',
             AddExposure (''KPIs'', ''alice'') [''customers'']]) \<and>
   build_exposures example_retrieve_workbook example_retrieve_user example_exposure ''pkg''
     {''Sandbox''} [(dash_b, [''orders'']), (dash_a, [''customers''])] [] =
   build_exposures example_retrieve_workbook example_retrieve_user example_exposure ''pkg''
     {''Sandbox''} [(dash_a, [''customers''])] [RetrieveWorkbook ''B'', RetrieveUser ''u1'']"
proof
  have f: "fetches_succeed example_retrieve_workbook example_retrieve_user example_wb example_usr
     [(dash_b, [''orders'']), (dash_a, [''customers''])]"
    by (simp add: example_retrieve_workbook_def example_retrieve_user_def example_wb_def
      example_usr_def dash_a_def dash_b_def workbook_a_def workbook_b_def)
  from excluded_dashboard_fetched_then_skipped [THEN conjunct1, rule_format, OF f]
  have "build_exposures example_retrieve_workbook example_retrieve_user example_exposure ''pkg''
     {''Sandbox''} [(dash_b, [''orders'']), (dash_a, [''customers''])] [] =
     (Inr (), [] @ concat (map (dashboard_events example_exposure ''pkg'' {''Sandbox''} example_wb example_usr)
        [(dash_b, [''orders'']), (dash_a, [''customers''])]))" .
  then show "build_exposures example_retrieve_workbook example_retrieve_user example_exposure ''pkg''
     {''Sandbox''} [(dash_b, [''orders'']), (dash_a, [''customers''])] [] =
   (Inr (), [RetrieveWorkbook ''B'', RetrieveUser ''u1'',
             RetrieveWorkbook ''A'', RetrieveUser ''u1'',
             AddExposure (''KPIs'', ''alice'') [''customers'']])"
    by (simp add: dashboard_events_def example_wb_def example_usr_def example_ignore
        dash_a_def dash_b_def example_exposure_def)
       (simp add: workbook_a_def workbook_b_def)
next
  have h: "fetches_succeed example_retrieve_workbook example_retrieve_user example_wb example_usr [] \<and>
      example_retrieve_workbook (ref_id dash_b) = Inr workbook_b \<and>
      example_retrieve_user (owner_id workbook_b) = Inr ''alice'' \<and>
      should_ignore_workbook workbook_b {''Sandbox''}"
    by (simp add: example_retrieve_workbook_def example_retrieve_user_def dash_b_def
        example_ignore)
       (simp add: workbook_b_def)
  from excluded_dashboard_fetched_then_skipped
         [THEN conjunct2, rule_format, OF h,
          where mk = example_exposure and pkg = "''pkg''" and found = "[''orders'']"
            and post = "[(dash_a, [''customers''])]" and trace = "[]"]
  show "build_exposures example_retrieve_workbook example_retrieve_user example_exposure ''pkg''
     {''Sandbox''} [(dash_b, [''orders'']), (dash_a, [''customers''])] [] =
   build_exposures example_retrieve_workbook example_retrieve_user example_exposure ''pkg''
     {''Sandbox''} [(dash_a, [''customers''])] [RetrieveWorkbook ''B'', RetrieveUser ''u1'']"
    by (simp add: dash_b_def workbook_b_def)
qed

lemma tableau_crawler_loop:
  assumes "parse_tables_from_sql search custom models = Inr cm"
    and "parse_tables_from_sql search native models = Inr nm"
  shows "tableau_crawler search rw ru mk models custom native pkg ign =
           (case build_exposures rw ru mk pkg ign (merge_results cm nm) [] of
              (Inl e, trace) \<Rightarrow> (Inl e, trace)
            | (Inr u, trace) \<Rightarrow> (Inr (), trace @ [SignOut, Persist]))"
  by (simp add: tableau_crawler_def assms)

text \<open>
  Claim C8. If \<^verbatim>\<open>retrieve_workbook\<close> or \<^verbatim>\<open>retrieve_user\<close> raises for a dashboard, the
  exception leaves \<^verbatim>\<open>tableau_crawler\<close>: the exposures added are those of the
  dashboards before it in iteration order, none for it or a later one, and the manifest
  is not persisted (nor is the client signed out).
\<close>

theorem fetch_failure_aborts_run:
  assumes "parse_tables_from_sql search custom models = Inr cm"
    and "parse_tables_from_sql search native models = Inr nm"
    and "merge_results cm nm = pre @ (r, found) # post"
    and "fetches_succeed rw ru wb usr pre"
    and "rw (ref_id r) = Inl e \<or> (\<exists>w. rw (ref_id r) = Inr w \<and> ru (owner_id w) = Inl e)"
  shows "\<exists>trace. tableau_crawler search rw ru mk models custom native pkg ign = (Inl e, trace) \<and>
           Persist \<notin> set trace \<and> SignOut \<notin> set trace \<and>
           added_exposures trace =
             map (\<lambda>(r, found). (mk pkg (wb r) (usr r) found, found))
               (filter (\<lambda>(r, found). \<not> should_ignore_workbook (wb r) ign) pre)"
proof -
  let ?done = "concat (map (dashboard_events mk pkg ign wb usr) pre)"
  have clean: "Persist \<notin> set ?done" "SignOut \<notin> set ?done"
    using no_persist_dashboard_events [of mk pkg ign wb usr pre] by simp_all
  from assms(5) show ?thesis
  proof
    assume "rw (ref_id r) = Inl e"
    then have "build_exposures rw ru mk pkg ign (merge_results cm nm) [] =
        (Inl e, [] @ ?done @ [RetrieveWorkbook (ref_id r)])"
      unfolding assms(3) by (rule build_exposures_fails_workbook [OF assms(4)])
    then have "tableau_crawler search rw ru mk models custom native pkg ign =
        (Inl e, ?done @ [RetrieveWorkbook (ref_id r)])"
      by (simp add: tableau_crawler_loop [OF assms(1,2)])
    then show ?thesis
      using clean by (simp add: added_exposures_dashboard_events)
  next
    assume "\<exists>w. rw (ref_id r) = Inr w \<and> ru (owner_id w) = Inl e"
    then obtain w where w: "rw (ref_id r) = Inr w" and u: "ru (owner_id w) = Inl e" by blast
    have "build_exposures rw ru mk pkg ign (merge_results cm nm) [] =
        (Inl e, [] @ ?done @ [RetrieveWorkbook (ref_id r), RetrieveUser (owner_id w)])"
      unfolding assms(3) by (rule build_exposures_fails_user [OF assms(4) w u])
    then have "tableau_crawler search rw ru mk models custom native pkg ign =
        (Inl e, ?done @ [RetrieveWorkbook (ref_id r), RetrieveUser (owner_id w)])"
      by (simp add: tableau_crawler_loop [OF assms(1,2)])
    then show ?thesis
      using clean by (simp add: added_exposures_dashboard_events)
  qed
qed

lemma example_parse_custom:
  "parse_tables_from_sql example_search [(dash_a, [''o'']), (dash_c, [''c''])] () =
     Inr [(dash_a, [''orders'']), (dash_c, [''customers''])]"
  by (simp add: parse_tables_from_sql_def example_search_def example_matches_def dict_values_def
      dash_a_def dash_c_def)

lemma example_parse_native:
  "parse_tables_from_sql example_search [(dash_b, [''o''])] () = Inr [(dash_b, [''orders''])]"
  by (simp add: parse_tables_from_sql_def example_search_def example_matches_def dict_values_def)

lemma example_merge:
  "merge_results [(dash_a, [''orders'']), (dash_c, [''customers''])] [(dash_b, [''orders''])] =
     [(dash_a, [''orders''])] @ (dash_c, [''customers'']) # [(dash_b, [''orders''])]"
  by (simp add: merge_results_def dash_a_def dash_b_def dash_c_def)

theorem fetch_failure_aborts_run_witness:
  "\<exists>trace. tableau_crawler example_search example_retrieve_workbook example_retrieve_user
      example_exposure () [(dash_a, [''o'']), (dash_c, [''c''])] [(dash_b, [''o''])] ''pkg''
      {''Sandbox''} = (Inl (Error ''404''), trace) \<and>
     Persist \<notin> set trace \<and> SignOut \<notin> set trace \<and>
     added_exposures trace = [((''KPIs'', ''alice''), [''orders''])]"
proof -
  have f: "fetches_succeed example_retrieve_workbook example_retrieve_user example_wb example_usr
     [(dash_a, [''orders''])]"
    by (simp add: example_retrieve_workbook_def example_retrieve_user_def example_wb_def
      example_usr_def dash_a_def workbook_a_def)
  have bad: "example_retrieve_workbook (ref_id dash_c) = Inl (Error ''404'') \<or>
     (\<exists>w. example_retrieve_workbook (ref_id dash_c) = Inr w \<and>
          example_retrieve_user (owner_id w) = Inl (Error ''404''))"
    by (simp add: example_retrieve_workbook_def dash_c_def)
  from fetch_failure_aborts_run
         [OF example_parse_custom example_parse_native example_merge f bad,
          where mk = example_exposure and pkg = "''pkg''" and ign = "{''Sandbox''}"]
  show ?thesis
    by (simp add: example_wb_def example_usr_def example_exposure_def example_ignore dash_a_def)
       (simp add: workbook_a_def)
qed

subsection \<open>One exposure per key, from non-empty match lists\<close>




lemma dict_values_simps [simp]:
  "dict_values ((k, v) # d) = v # dict_values d"
  "dict_values (d @ d') = dict_values d @ dict_values d'"
  by (simp_all add: dict_values_def)

lemma dict_set_values: "set (dict_values (dict_set d k v)) \<subseteq> insert v (set (dict_values d))"
  by (induction d) (auto split: if_splits)

lemma parse_loop_nonempty:
  "[] \<notin> set (dict_values out0) \<Longrightarrow> parse_loop search models ws out0 = Inr out \<Longrightarrow>
   [] \<notin> set (dict_values out)"
proof (induction ws arbitrary: out0)
  case Nil
  then show ?case by simp
next
  case (Cons kv ws)
  obtain k sqls where kv: "kv = (k, sqls)" by (cases kv)
  show ?case
  proof (cases "collect_found search models sqls []")
    case (Inl e)
    then show ?thesis using Cons.prems(2) by (simp add: kv)
  next
    case (Inr all_found)
    show ?thesis
    proof (cases "all_found = []")
      case True
      then show ?thesis using Cons.IH [OF Cons.prems(1)] Cons.prems(2) Inr by (simp add: kv)
    next
      case False
      have "[] \<notin> set (dict_values (dict_set out0 k all_found))"
        using dict_set_values [of out0 k all_found] Cons.prems(1) False by auto
      then show ?thesis using Cons.IH [of "dict_set out0 k all_found"] Cons.prems(2) Inr False
        by (simp add: kv)
    qed
  qed
qed

lemma setdefault_extend_nonempty:
  "[] \<notin> set (dict_values d) \<Longrightarrow> found \<noteq> [] \<Longrightarrow>
   [] \<notin> set (dict_values (setdefault_extend d k found))"
  by (induction d) (auto split: if_splits)

lemma merge_loop_nonempty:
  "[] \<notin> set (dict_values items) \<Longrightarrow> [] \<notin> set (dict_values acc) \<Longrightarrow>
   [] \<notin> set (dict_values (merge_loop items acc))"
proof (induction items acc rule: merge_loop.induct)
  case (1 acc)
  then show ?case by simp
next
  case (2 k found rest acc)
  from "2.prems" have "found \<noteq> []" "[] \<notin> set (dict_values rest)" by auto
  then show ?case using "2.IH" "2.prems"(2) by (simp add: setdefault_extend_nonempty)
qed

lemma build_exposures_nonempty:
  "[] \<notin> set (dict_values ws) \<Longrightarrow> \<forall>x. AddExposure x [] \<notin> set trace \<Longrightarrow>
   AddExposure x [] \<notin> set (snd (build_exposures rw ru mk pkg ign ws trace))"
proof (induction ws arbitrary: trace)
  case Nil
  then show ?case by simp
next
  case (Cons kv ws)
  obtain r found where kv: "kv = (r, found)" by (cases kv)
  from Cons.prems(1) kv have ne: "found \<noteq> []" and rest: "[] \<notin> set (dict_values ws)" by auto
  show ?case
  proof (cases "rw (ref_id r)")
    case (Inl e)
    then show ?thesis using Cons.prems(2) by (simp add: kv)
  next
    case w: (Inr w)
    show ?thesis
    proof (cases "ru (owner_id w)")
      case (Inl e)
      then show ?thesis using Cons.prems(2) w by (simp add: kv)
    next
      case u: (Inr u)
      have t1: "\<forall>x. AddExposure x [] \<notin> set (trace @ [RetrieveWorkbook (ref_id r), RetrieveUser (owner_id w)])"
        using Cons.prems(2) by simp
      have t2: "\<forall>x. AddExposure x [] \<notin> set (trace @ [RetrieveWorkbook (ref_id r), RetrieveUser (owner_id w),
                    AddExposure (mk pkg w u found) found])"
        using Cons.prems(2) ne by simp
      show ?thesis
        using Cons.IH [OF rest t1] Cons.IH [OF rest t2] w u by (simp add: kv)
    qed
  qed
qed

text \<open>
  Claim C10. Every value list of an aggregator output is non-empty, so is every value
  list of the merged mapping, and in every run of the crawler no \<^verbatim>\<open>add_exposure\<close> call
  (hence no exposure) is made with an empty match list.
\<close>

theorem match_lists_nonempty:
  "(parse_tables_from_sql search ws models = Inr out \<longrightarrow> [] \<notin> set (dict_values out)) \<and>
   ([] \<notin> set (dict_values cm) \<and> [] \<notin> set (dict_values nm) \<longrightarrow>
      [] \<notin> set (dict_values (merge_results cm nm))) \<and>
   AddExposure x [] \<notin>
     set (snd (tableau_crawler search rw ru mk models custom native pkg ign))"
proof (intro conjI impI)
  show "[] \<notin> set (dict_values out)" if "parse_tables_from_sql search ws models = Inr out"
    using parse_loop_nonempty [of "[]" search models ws out] that
    by (simp add: parse_tables_from_sql_def)
  show "[] \<notin> set (dict_values (merge_results cm nm))"
    if "[] \<notin> set (dict_values cm) \<and> [] \<notin> set (dict_values nm)"
    using that by (simp add: merge_results_def merge_loop_nonempty)
  show "AddExposure x [] \<notin>
     set (snd (tableau_crawler search rw ru mk models custom native pkg ign))"
  proof (cases "parse_tables_from_sql search custom models")
    case (Inl e)
    then show ?thesis by (simp add: tableau_crawler_def)
  next
    case cm: (Inr cm)
    show ?thesis
    proof (cases "parse_tables_from_sql search native models")
      case (Inl e)
      then show ?thesis using cm by (simp add: tableau_crawler_def)
    next
      case nm: (Inr nm)
      have "[] \<notin> set (dict_values cm)" "[] \<notin> set (dict_values nm)"
        using parse_loop_nonempty [of "[]" search models custom cm]
          parse_loop_nonempty [of "[]" search models native nm] cm nm
        by (simp_all add: parse_tables_from_sql_def)
      then have "[] \<notin> set (dict_values (merge_results cm nm))"
        by (simp add: merge_results_def merge_loop_nonempty)
      then have "AddExposure x [] \<notin> set (snd (build_exposures rw ru mk pkg ign (merge_results cm nm) []))"
        by (rule build_exposures_nonempty) simp
      then show ?thesis
        by (cases "build_exposures rw ru mk pkg ign (merge_results cm nm) []")
           (auto simp: tableau_crawler_loop [OF cm nm] split: sum.splits)
    qed
  qed
qed

theorem match_lists_nonempty_witness:
  "[] \<notin> set (dict_values [(dash_a, [''orders'']), (dash_c, [''customers''])]) \<and>
   [] \<notin> set (dict_values (merge_results [(dash_a, [''orders''])] [(dash_b, [''orders''])])) \<and>
   AddExposure (''KPIs'', ''alice'') [] \<notin>
     set (snd (tableau_crawler example_search example_retrieve_workbook example_retrieve_user
       example_exposure () [(dash_a, [''o''])] [(dash_b, [''o''])] ''pkg'' {''Sandbox''}))"
proof (intro conjI)
  show "[] \<notin> set (dict_values [(dash_a, [''orders'']), (dash_c, [''customers''])])"
    using match_lists_nonempty [THEN conjunct1, rule_format, OF example_parse_custom] .
  have ne: "[] \<notin> set (dict_values [(dash_a, [''orders''])]) \<and>
            [] \<notin> set (dict_values [(dash_b, [''orders''])])"
    by simp
  show "[] \<notin> set (dict_values (merge_results [(dash_a, [''orders''])] [(dash_b, [''orders''])]))"
    using match_lists_nonempty [THEN conjunct2, THEN conjunct1, rule_format, OF ne] .
  show "AddExposure (''KPIs'', ''alice'') [] \<notin>
     set (snd (tableau_crawler example_search example_retrieve_workbook example_retrieve_user
       example_exposure () [(dash_a, [''o''])] [(dash_b, [''o''])] ''pkg'' {''Sandbox''}))"
    using match_lists_nonempty [THEN conjunct2, THEN conjunct2] .
qed

subsection \<open>Deduplication in the exposure\<close>

lemma dedup_ids_set:
  "unique_id ` set (dedup_by_unique_id seen rs) = unique_id ` set rs - set seen"
  by (induction rs arbitrary: seen) auto

lemma dedup_not_seen: "r \<in> set (dedup_by_unique_id seen rs) \<Longrightarrow> unique_id r \<notin> set seen"
  using dedup_ids_set [of seen rs] by blast

lemma dedup_ids_distinct: "distinct (map unique_id (dedup_by_unique_id seen rs))"
proof (induction rs arbitrary: seen)
  case Nil
  then show ?case by simp
next
  case (Cons a rs)
  show ?case
  proof (cases "unique_id a \<in> set seen")
    case True
    then show ?thesis using Cons.IH [of seen] by simp
  next
    case False
    have "unique_id a \<notin> unique_id ` set (dedup_by_unique_id (unique_id a # seen) rs)"
      unfolding dedup_ids_set by simp
    then show ?thesis using False Cons.IH [of "unique_id a # seen"] by simp
  qed
qed

lemma count_list_distinct: "distinct xs \<Longrightarrow> x \<in> set xs \<Longrightarrow> count_list xs x = 1"
  by (induction xs) auto

lemma dedup_first_occurrence:
  "r \<in> set (dedup_by_unique_id seen rs) \<Longrightarrow>
   find (\<lambda>r'. unique_id r' = unique_id r) rs = Some r"
proof (induction rs arbitrary: seen)
  case Nil
  then show ?case by simp
next
  case (Cons a rs)
  show ?case
  proof (cases "unique_id a \<in> set seen")
    case True
    then have mem: "r \<in> set (dedup_by_unique_id seen rs)" using Cons.prems by simp
    then have "unique_id r \<notin> set seen" by (rule dedup_not_seen)
    then have "unique_id a \<noteq> unique_id r" using True by auto
    then show ?thesis using Cons.IH [OF mem] by simp
  next
    case False
    then have "r = a \<or> r \<in> set (dedup_by_unique_id (unique_id a # seen) rs)"
      using Cons.prems by simp
    then show ?thesis
    proof
      assume "r = a"
      then show ?thesis by simp
    next
      assume mem: "r \<in> set (dedup_by_unique_id (unique_id a # seen) rs)"
      then have "unique_id r \<noteq> unique_id a" using dedup_not_seen [OF mem] by auto
      then show ?thesis using Cons.IH [OF mem] by simp
    qed
  qed
qed

text \<open>
  Claim C4. When a relation unique id appears more than once in the merged match list
  (or once), the Exposure built for the dashboard has it exactly once in its depends-on
  list: the list has no repetition and holds the unique ids of the match list. The
  tie-break is fixed: the record kept for a unique id is its first occurrence in the
  match list.
\<close>

theorem exposure_depends_on_deduplicated:
  "distinct (depends_on (from_tableau_workbook pkg w owner found)) \<and>
   set (depends_on (from_tableau_workbook pkg w owner found)) = unique_id ` set found \<and>
   (\<forall>r \<in> set found.
      count_list (depends_on (from_tableau_workbook pkg w owner found)) (unique_id r) = 1) \<and>
   (\<forall>r \<in> set (dedup_by_unique_id [] found).
      find (\<lambda>r'. unique_id r' = unique_id r) found = Some r)"
proof (intro conjI ballI)
  show d: "distinct (depends_on (from_tableau_workbook pkg w owner found))"
    using dedup_ids_distinct [of "[]" found] by (simp add: from_tableau_workbook_def)
  show s: "set (depends_on (from_tableau_workbook pkg w owner found)) = unique_id ` set found"
    using dedup_ids_set [of "[]" found] by (simp add: from_tableau_workbook_def)
  show "count_list (depends_on (from_tableau_workbook pkg w owner found)) (unique_id r) = 1"
    if "r \<in> set found" for r
  proof -
    have "unique_id r \<in> set (depends_on (from_tableau_workbook pkg w owner found))"
      using that s by blast
    with d show ?thesis by (rule count_list_distinct)
  qed
  show "find (\<lambda>r'. unique_id r' = unique_id r) found = Some r"
    if "r \<in> set (dedup_by_unique_id [] found)" for r
    using that by (rule dedup_first_occurrence)
qed

theorem exposure_depends_on_deduplicated_witness:
  "count_list (depends_on (from_tableau_workbook ''pkg'' workbook_a
      \<lparr>user_name = ''alice'', user_email = ''a@x''\<rparr>
      ([orders_relation] @ [stg_orders_relation, orders_relation]))) ''m1'' = 1 \<and>
   depends_on (from_tableau_workbook ''pkg'' workbook_a
      \<lparr>user_name = ''alice'', user_email = ''a@x''\<rparr>
      ([orders_relation] @ [stg_orders_relation, orders_relation])) = [''m1'', ''m2''] \<and>
   find (\<lambda>r'. unique_id r' = ''m2'') ([orders_relation] @ [stg_orders_relation, orders_relation]) =
     Some stg_orders_relation"
proof (intro conjI)
  have mem: "orders_relation \<in> set ([orders_relation] @ [stg_orders_relation, orders_relation])"
    by simp
  from exposure_depends_on_deduplicated
         [THEN conjunct2, THEN conjunct2, THEN conjunct1, rule_format, OF mem]
  show "count_list (depends_on (from_tableau_workbook ''pkg'' workbook_a
      \<lparr>user_name = ''alice'', user_email = ''a@x''\<rparr>
      ([orders_relation] @ [stg_orders_relation, orders_relation]))) ''m1'' = 1"
    by (simp add: orders_relation_def)
  show "depends_on (from_tableau_workbook ''pkg'' workbook_a
      \<lparr>user_name = ''alice'', user_email = ''a@x''\<rparr>
      ([orders_relation] @ [stg_orders_relation, orders_relation])) = [''m1'', ''m2'']"
    by (simp add: from_tableau_workbook_def orders_relation_def stg_orders_relation_def)
  have kept: "stg_orders_relation \<in>
      set (dedup_by_unique_id [] ([orders_relation] @ [stg_orders_relation, orders_relation]))"
    by (simp add: orders_relation_def stg_orders_relation_def)
  from exposure_depends_on_deduplicated
         [THEN conjunct2, THEN conjunct2, THEN conjunct2, rule_format, OF kept]
  show "find (\<lambda>r'. unique_id r' = ''m2'') ([orders_relation] @ [stg_orders_relation, orders_relation]) =
     Some stg_orders_relation"
    by (simp add: stg_orders_relation_def)
qed

subsection \<open>The matcher\<close>

lemma starts_token_iff:
  "starts_token name doc \<longleftrightarrow>
     (\<exists>post. doc = name @ post \<and> (post = [] \<or> \<not> ident_char (hd post)))"
proof (induction name doc rule: starts_token.induct)
  case 1
  then show ?case by simp
next
  case (2 c cs)
  then show ?case by simp
next
  case (3 n ns)
  then show ?case by simp
next
  case (4 n ns c cs)
  have "starts_token (n # ns) (c # cs) \<longleftrightarrow>
          n = c \<and> (\<exists>post. cs = ns @ post \<and> (post = [] \<or> \<not> ident_char (hd post)))"
    using 4 by simp
  also have "\<dots> \<longleftrightarrow> (\<exists>post. c # cs = (n # ns) @ post \<and> (post = [] \<or> \<not> ident_char (hd post)))"
    by (simp only: append_Cons list.inject eq_commute [of c n]) blast
  finally show ?case .
qed

lemma occurs_afterI:
  "doc = pre @ name @ post \<Longrightarrow> (if pre = [] then b else \<not> ident_char (last pre)) \<Longrightarrow>
   post = [] \<or> \<not> ident_char (hd post) \<Longrightarrow> occurs_after b name doc"
  unfolding occurs_after_def by blast

lemma occurs_after_step:
  "occurs_after b name (c # cs) \<longleftrightarrow>
     (b \<and> starts_token name (c # cs)) \<or> occurs_after (\<not> ident_char c) name cs"
    (is "?L \<longleftrightarrow> ?A \<or> ?B")
proof
  assume ?L
  then obtain pre post where eq: "c # cs = pre @ name @ post"
    and bd: "if pre = [] then b else \<not> ident_char (last pre)"
    and af: "post = [] \<or> \<not> ident_char (hd post)"
    unfolding occurs_after_def by blast
  show "?A \<or> ?B"
  proof (cases pre)
    case Nil
    have b using bd Nil by simp
    moreover have "starts_token name (c # cs)"
      unfolding starts_token_iff using eq af Nil by (intro exI [of _ post]) simp
    ultimately show ?thesis by simp
  next
    case (Cons p pre')
    have cs: "cs = pre' @ name @ post" using eq Cons by simp
    have pc: "p = c" using eq Cons by simp
    have "if pre' = [] then \<not> ident_char c else \<not> ident_char (last pre')"
      using bd Cons pc by (cases "pre' = []") simp_all
    with cs have ?B using af by (rule occurs_afterI)
    then show ?thesis ..
  qed
next
  assume "?A \<or> ?B"
  then show ?L
  proof
    assume a: ?A
    then obtain post where p: "c # cs = name @ post" "post = [] \<or> \<not> ident_char (hd post)"
      unfolding starts_token_iff by blast
    show ?L
      by (rule occurs_afterI [of _ "[]" _ post]) (use a p in simp_all)
  next
    assume ?B
    then obtain pre post where eq: "cs = pre @ name @ post"
      and bd: "if pre = [] then \<not> ident_char c else \<not> ident_char (last pre)"
      and af: "post = [] \<or> \<not> ident_char (hd post)"
      unfolding occurs_after_def by blast
    have bd': "\<not> ident_char (last (c # pre))"
      using bd by (cases "pre = []") simp_all
    show ?L
      by (rule occurs_afterI [of _ "c # pre" _ post]) (use eq bd' af in simp_all)
  qed
qed

lemma occurs_after_Nil: "name \<noteq> [] \<Longrightarrow> \<not> occurs_after b name []"
  unfolding occurs_after_def by simp

lemma find_token_iff:
  assumes "name \<noteq> []"
  shows "find_token name b i doc \<noteq> None \<longleftrightarrow> occurs_after b name doc"
proof (induction doc arbitrary: b i)
  case Nil
  show ?case using assms by (simp add: occurs_after_Nil)
next
  case (Cons c cs)
  show ?case
  proof (cases "b \<and> starts_token name (c # cs)")
    case True
    then show ?thesis by (simp add: occurs_after_step)
  next
    case False
    then have "find_token name b i (c # cs) = find_token name (\<not> ident_char c) (Suc i) cs"
      by (simp only: find_token.simps if_False)
    moreover have "occurs_after b name (c # cs) \<longleftrightarrow> occurs_after (\<not> ident_char c) name cs"
      using False occurs_after_step [of b name c cs] by blast
    ultimately show ?thesis
      using Cons.IH [of "\<not> ident_char c" "Suc i"] by simp
  qed
qed

lemma occurs_as_token_after:
  "occurs_as_token name doc \<longleftrightarrow> name \<noteq> [] \<and> occurs_after True name doc"
proof -
  have "\<And>pre. (if pre = [] then True else \<not> ident_char (last pre)) \<longleftrightarrow>
              (pre = [] \<or> \<not> ident_char (last pre))"
    by simp
  then show ?thesis
    unfolding occurs_as_token_def occurs_after_def by simp
qed

lemma token_pos_iff: "token_pos name doc \<noteq> None \<longleftrightarrow> occurs_as_token name doc"
proof (cases "name = []")
  case True
  then show ?thesis by (simp add: token_pos_def occurs_as_token_after)
next
  case False
  then show ?thesis
    unfolding occurs_as_token_after token_pos_def
    using find_token_iff [OF False, of True 0 doc] by simp
qed

lemma relation_pos_iff:
  "relation_pos r doc \<noteq> None \<longleftrightarrow>
     occurs_as_token (normalise (qualified_name r)) doc \<or>
     occurs_as_token (normalise (relation_name r)) doc"
  unfolding token_pos_iff [symmetric] relation_pos_def
  by (simp split: option.splits)

lemma set_hits:
  "set (hits doc registry) = {(i, r). r \<in> set registry \<and> relation_pos r doc = Some i}"
  by (induction registry) (auto simp: hits_def split: option.splits)

lemma dict_set_keys: "set (dict_keys (dict_set d k v)) = insert k (set (dict_keys d))"
  by (induction d) (auto split: if_splits)

lemma insert_hits_keys:
  "set (dict_keys (insert_hits d hs)) = set (dict_keys d) \<union> (\<lambda>h. unique_id (snd h)) ` set hs"
  by (induction d hs rule: insert_hits.induct) (auto simp: dict_set_keys)

lemma find_models_keys:
  "set (dict_keys (find_models sql_text registry)) =
     {unique_id r | r. r \<in> set registry \<and> relation_pos r (normalise sql_text) \<noteq> None}"
  unfolding find_models_def insert_hits_keys set_sort set_hits
  by (auto simp: image_iff) blast

text \<open>
  Claim C5. For every registry and every SQL text \<open>T\<close>: a relation of the registry whose
  qualified or unqualified name occurs in \<open>T\<close> as a standalone token (case-insensitively,
  quoting characters set aside) has its unique id in the matcher's result; a relation
  whose names occur in \<open>T\<close> only inside longer identifiers (such as \<open>orders\<close> inside
  \<open>stg_orders\<close>), or not at all, is absent from it, unique ids being unique in the
  registry.
\<close>

theorem find_models_token_matches:
  assumes "r \<in> set registry"
  shows "(occurs_as_token (normalise (qualified_name r)) (normalise T) \<or>
          occurs_as_token (normalise (relation_name r)) (normalise T) \<longrightarrow>
            unique_id r \<in> set (dict_keys (find_models T registry))) \<and>
         (distinct (map unique_id registry) \<and>
          \<not> occurs_as_token (normalise (qualified_name r)) (normalise T) \<and>
          \<not> occurs_as_token (normalise (relation_name r)) (normalise T) \<longrightarrow>
            unique_id r \<notin> set (dict_keys (find_models T registry)))"
proof (intro conjI impI)
  assume "occurs_as_token (normalise (qualified_name r)) (normalise T) \<or>
          occurs_as_token (normalise (relation_name r)) (normalise T)"
  then have "relation_pos r (normalise T) \<noteq> None"
    using relation_pos_iff [of r "normalise T"] by blast
  then show "unique_id r \<in> set (dict_keys (find_models T registry))"
    unfolding find_models_keys using assms by blast
next
  assume a: "distinct (map unique_id registry) \<and>
          \<not> occurs_as_token (normalise (qualified_name r)) (normalise T) \<and>
          \<not> occurs_as_token (normalise (relation_name r)) (normalise T)"
  then have none: "relation_pos r (normalise T) = None"
    using relation_pos_iff [of r "normalise T"] by blast
  from a have inj: "inj_on unique_id (set registry)" by (simp add: distinct_map)
  show "unique_id r \<notin> set (dict_keys (find_models T registry))"
  proof
    assume "unique_id r \<in> set (dict_keys (find_models T registry))"
    then obtain r' where r': "r' \<in> set registry" "unique_id r' = unique_id r"
      and pos: "relation_pos r' (normalise T) \<noteq> None"
      unfolding find_models_keys by force
    from inj r' assms have "r' = r" by (auto dest: inj_onD)
    then show False using pos none by simp
  qed
qed

lemma example_sql_normalised: "normalise example_sql = ''x dw.stg_orders''"
  by code_simp

lemma example_names_normalised:
  "normalise (relation_name stg_orders_relation) = ''stg_orders''"
  "normalise (relation_name orders_relation) = ''orders''"
  "normalise (qualified_name orders_relation) = ''db.dw.orders''"
  by code_simp+

theorem find_models_token_matches_witness:
  "unique_id stg_orders_relation \<in>
     set (dict_keys (find_models example_sql [orders_relation, stg_orders_relation])) \<and>
   unique_id orders_relation \<notin>
     set (dict_keys (find_models example_sql [orders_relation, stg_orders_relation]))"
proof
  have m2: "stg_orders_relation \<in> set [orders_relation, stg_orders_relation]" by simp
  have "token_pos ''stg_orders'' ''x dw.stg_orders'' = Some 5"
    by (simp add: token_pos_def ident_char_def)
  then have "occurs_as_token ''stg_orders'' ''x dw.stg_orders''"
    using token_pos_iff [of "''stg_orders''" "''x dw.stg_orders''"] by simp
  then have occ: "occurs_as_token (normalise (qualified_name stg_orders_relation)) (normalise example_sql) \<or>
      occurs_as_token (normalise (relation_name stg_orders_relation)) (normalise example_sql)"
    by (simp add: example_names_normalised example_sql_normalised)
  from find_models_token_matches [OF m2, of example_sql, THEN conjunct1, rule_format, OF occ]
  show "unique_id stg_orders_relation \<in>
     set (dict_keys (find_models example_sql [orders_relation, stg_orders_relation]))" .
next
  have m1: "orders_relation \<in> set [orders_relation, stg_orders_relation]" by simp
  have d: "distinct (map unique_id [orders_relation, stg_orders_relation])"
    by (simp add: orders_relation_def stg_orders_relation_def)
  have "token_pos ''orders'' ''x dw.stg_orders'' = None"
    "token_pos ''db.dw.orders'' ''x dw.stg_orders'' = None"
    by (simp_all add: token_pos_def ident_char_def)
  then have "\<not> occurs_as_token ''db.dw.orders'' ''x dw.stg_orders''"
    "\<not> occurs_as_token ''orders'' ''x dw.stg_orders''"
    using token_pos_iff [of "''orders''" "''x dw.stg_orders''"]
      token_pos_iff [of "''db.dw.orders''" "''x dw.stg_orders''"] by simp_all
  with d have h: "distinct (map unique_id [orders_relation, stg_orders_relation]) \<and>
      \<not> occurs_as_token (normalise (qualified_name orders_relation)) (normalise example_sql) \<and>
      \<not> occurs_as_token (normalise (relation_name orders_relation)) (normalise example_sql)"
    by (simp add: example_names_normalised example_sql_normalised)
  from find_models_token_matches [OF m1, of example_sql, THEN conjunct2, rule_format, OF h]
  show "unique_id orders_relation \<notin>
     set (dict_keys (find_models example_sql [orders_relation, stg_orders_relation]))" .
qed

subsection \<open>The scenarios of the specification\<close>

text \<open>
  The scenarios of the specification, run on the crawler with the matcher and the
  exposure constructor modelled above: \<open>orders\<close> is referenced by dashboard \<open>A\<close> under
  both SQL sources and by dashboard \<open>B\<close>, which has no project name. One exposure is
  registered, for \<open>A\<close>, depending on \<open>m1\<close> once; \<open>B\<close> is fetched and skipped; the client
  is signed out and the manifest persisted.
\<close>

lemma example_find_orders:
  "find_models ''from orders'' [orders_relation, stg_orders_relation] = [(''m1'', orders_relation)]"
  by code_simp

lemma example_end_to_end:
  "tableau_crawler search_model_in_query example_retrieve_workbook example_retrieve_owner
     from_tableau_workbook [orders_relation, stg_orders_relation]
     [(dash_a, [''from orders''])] [(dash_a, [''from orders'']), (dash_b, [''from orders''])]
     ''pkg'' {} =
   (Inr (),
    [RetrieveWorkbook ''A'', RetrieveUser ''u1'',
     AddExposure
       \<lparr>exposure_name = ''KPIs'', owner_name = ''alice'', owner_email = ''a@x'',
        depends_on = [''m1'']\<rparr>
       [orders_relation, orders_relation],
     RetrieveWorkbook ''B'', RetrieveUser ''u1'',
     SignOut, Persist])"
  by code_simp

end
